theory Spec2Isabelle
  imports Complex_Main
begin

section \<open>JavaScript numbers\<close>

text \<open>
  The component in \<^verbatim>\<open>src/App.jsx\<close> computes with JavaScript numbers. A number is
  modelled as a rational, one of the two infinities, or NaN. Finite arithmetic is exact
  (the rounding of IEEE doubles is not modelled) and the sign of zero is not
  distinguished. NaN is kept because the code can meet it: \<^verbatim>\<open>parseInt\<close> returns
  NaN on input such as \<^verbatim>\<open>".5"\<close>, and \<^verbatim>\<open>x % 0\<close> is NaN.
\<close>

datatype jsnum = Num rat | PInf | NInf | NaN

text \<open>\<^verbatim>\<open>a + b\<close>\<close>

fun js_add :: "jsnum \<Rightarrow> jsnum \<Rightarrow> jsnum" where
  "js_add (Num a) (Num b) = Num (a + b)"
| "js_add NaN _ = NaN"
| "js_add _ NaN = NaN"
| "js_add PInf NInf = NaN"
| "js_add NInf PInf = NaN"
| "js_add PInf _ = PInf"
| "js_add _ PInf = PInf"
| "js_add NInf _ = NInf"
| "js_add _ NInf = NInf"

text \<open>\<^verbatim>\<open>a * b\<close>\<close>

fun js_mul :: "jsnum \<Rightarrow> jsnum \<Rightarrow> jsnum" where
  "js_mul (Num a) (Num b) = Num (a * b)"
| "js_mul NaN _ = NaN"
| "js_mul _ NaN = NaN"
| "js_mul PInf (Num b) = (if 0 < b then PInf else if b < 0 then NInf else NaN)"
| "js_mul NInf (Num b) = (if 0 < b then NInf else if b < 0 then PInf else NaN)"
| "js_mul (Num a) PInf = (if 0 < a then PInf else if a < 0 then NInf else NaN)"
| "js_mul (Num a) NInf = (if 0 < a then NInf else if a < 0 then PInf else NaN)"
| "js_mul PInf PInf = PInf"
| "js_mul PInf NInf = NInf"
| "js_mul NInf PInf = NInf"
| "js_mul NInf NInf = PInf"

text \<open>\<^verbatim>\<open>a / b\<close>. No divisor of the program can be zero unless it is NaN.\<close>

fun js_div :: "jsnum \<Rightarrow> jsnum \<Rightarrow> jsnum" where
  "js_div (Num a) (Num b) =
     (if b \<noteq> 0 then Num (a / b)
      else if 0 < a then PInf else if a < 0 then NInf else NaN)"
| "js_div NaN _ = NaN"
| "js_div _ NaN = NaN"
| "js_div (Num a) PInf = Num 0"
| "js_div (Num a) NInf = Num 0"
| "js_div PInf (Num b) = (if 0 \<le> b then PInf else NInf)"
| "js_div NInf (Num b) = (if 0 \<le> b then NInf else PInf)"
| "js_div _ _ = NaN"

text \<open>Rounding towards zero, as the quotient of \<^verbatim>\<open>%\<close> is rounded.\<close>

definition js_trunc :: "rat \<Rightarrow> rat" where
  "js_trunc x = (if 0 \<le> x then of_int \<lfloor>x\<rfloor> else of_int \<lceil>x\<rceil>)"

text \<open>\<^verbatim>\<open>a % b\<close>: the remainder has the sign of the dividend; it is NaN when the
  divisor is zero or the dividend is infinite.\<close>

fun js_rem :: "jsnum \<Rightarrow> jsnum \<Rightarrow> jsnum" where
  "js_rem (Num a) (Num b) = (if b = 0 then NaN else Num (a - b * js_trunc (a / b)))"
| "js_rem (Num a) PInf = Num a"
| "js_rem (Num a) NInf = Num a"
| "js_rem _ _ = NaN"

text \<open>\<^verbatim>\<open>a <= b\<close>: false as soon as one side is NaN.\<close>

fun js_le :: "jsnum \<Rightarrow> jsnum \<Rightarrow> bool" where
  "js_le (Num a) (Num b) = (a \<le> b)"
| "js_le NaN _ = False"
| "js_le _ NaN = False"
| "js_le NInf _ = True"
| "js_le _ PInf = True"
| "js_le _ _ = False"

text \<open>\<^verbatim>\<open>a >= b\<close>\<close>

definition js_ge :: "jsnum \<Rightarrow> jsnum \<Rightarrow> bool" where
  "js_ge a b = js_le b a"

text \<open>\<^verbatim>\<open>a === b\<close> on numbers: NaN is equal to nothing, itself included.\<close>

definition js_strict_eq :: "jsnum \<Rightarrow> jsnum \<Rightarrow> bool" where
  "js_strict_eq a b = (a \<noteq> NaN \<and> b \<noteq> NaN \<and> a = b)"

text \<open>\<^verbatim>\<open>Math.max(a, b)\<close> and \<^verbatim>\<open>Math.min(a, b)\<close>: NaN as soon as one argument is.\<close>

definition js_max :: "jsnum \<Rightarrow> jsnum \<Rightarrow> jsnum" where
  "js_max a b = (if a = NaN \<or> b = NaN then NaN else if js_le a b then b else a)"

definition js_min :: "jsnum \<Rightarrow> jsnum \<Rightarrow> jsnum" where
  "js_min a b = (if a = NaN \<or> b = NaN then NaN else if js_le a b then a else b)"

section \<open>Helpers\<close>

text \<open>\<^verbatim>\<open>const clamp = (n, min, max) => Math.max(min, Math.min(max, n));\<close>\<close>

definition clamp :: "jsnum \<Rightarrow> jsnum \<Rightarrow> jsnum \<Rightarrow> jsnum" where
  "clamp n mn mx = js_max mn (js_min mx n)"

text \<open>
  \<^verbatim>\<open>const shouldHit = (beatIndex, subdivision = 1) => beatIndex % subdivision === 0;\<close>
  The default parameter applies when the argument is absent (\<open>None\<close>).
\<close>

definition shouldHit :: "jsnum \<Rightarrow> jsnum option \<Rightarrow> bool" where
  "shouldHit beatIndex subdivision =
     (let sub = (case subdivision of None \<Rightarrow> Num 1 | Some k \<Rightarrow> k)
      in js_strict_eq (js_rem beatIndex sub) (Num 0))"

text \<open>A non-negative integer as a JavaScript number.\<close>

definition num_of_nat :: "nat \<Rightarrow> jsnum" where
  "num_of_nat n = Num (of_nat n)"

section \<open>The component state\<close>

text \<open>A decoded audio buffer is an opaque handle.\<close>

type_synonym AudioBuffer = nat

datatype js_error = InvalidStateError | EncodingError

text \<open>
  An \<^verbatim>\<open>AudioBufferSourceNode\<close>. Its \<^verbatim>\<open>stop()\<close> throws \<^verbatim>\<open>InvalidStateError\<close>
  when \<^verbatim>\<open>start()\<close> was never called.
\<close>

record source_node =
  node_buffer :: AudioBuffer
  node_started :: bool

definition node_stop :: "source_node \<Rightarrow> js_error + unit" where
  "node_stop n = (if node_started n then Inr () else Inl InvalidStateError)"

text \<open>What the component does to the world outside its own state.\<close>

datatype effect =
    ContextCreated
  | SourceStarted AudioBuffer
  | SourceStopped AudioBuffer
  | SourceDisconnected AudioBuffer
  | IntervalSet jsnum
  | IntervalCleared
  | Alert

text \<open>
  The timer made by \<^verbatim>\<open>window.setInterval\<close> in \<^verbatim>\<open>scheduleBeats\<close>: its callback closes
  over \<^verbatim>\<open>interval\<close> and \<^verbatim>\<open>swingAmt\<close> as they were computed when it was created.
\<close>

record sched_timer =
  tm_interval :: jsnum
  tm_swingAmt :: jsnum
  tm_period :: jsnum

text \<open>
  The state and refs of \<^verbatim>\<open>AnimalBand\<close> that the player and the scheduler use
  (\<^verbatim>\<open>audioFile\<close>, \<^verbatim>\<open>audioUrl\<close>, \<^verbatim>\<open>debug\<close> and \<^verbatim>\<open>realism\<close> only feed the
  page). \<open>timeouts\<close> holds the due times of the pending
  \<^verbatim>\<open>setTimeout(()=>setHitPulse(false), 100)\<close> callbacks, oldest first, and
  \<open>effects\<close> the log of effects so far.
\<close>

record comp =
  isPlaying :: bool
  bpm :: "jsnum option"
  manualBpm :: jsnum
  offsetMs :: jsnum
  quantize :: string
  swing :: jsnum
  beatCount :: nat
  hitPulse :: bool
  activeArm :: nat
  audioCtxRef :: bool
  audioBufferRef :: "AudioBuffer option"
  sourceRef :: "source_node option"
  nextBeatTimeRef :: jsnum
  schedulerTimerRef :: "sched_timer option"
  beatIndexRef :: nat
  timeouts :: "rat list"
  effects :: "effect list"

text \<open>The initial values of \<^verbatim>\<open>useState\<close> and \<^verbatim>\<open>useRef\<close>.\<close>

definition init :: comp where
  "init = \<lparr> isPlaying = False, bpm = None, manualBpm = Num 120, offsetMs = Num 0,
            quantize = ''1/1'', swing = Num 0, beatCount = 0, hitPulse = False,
            activeArm = 0, audioCtxRef = False, audioBufferRef = None, sourceRef = None,
            nextBeatTimeRef = Num 0, schedulerTimerRef = None, beatIndexRef = 0,
            timeouts = [], effects = [] \<rparr>"

definition emit :: "effect \<Rightarrow> comp \<Rightarrow> comp" where
  "emit e s = s\<lparr>effects := effects s @ [e]\<rparr>"

text \<open>\<^verbatim>\<open>bpm ?? manualBpm\<close>\<close>

definition tempo :: "comp \<Rightarrow> jsnum" where
  "tempo s = (case bpm s of None \<Rightarrow> manualBpm s | Some b \<Rightarrow> b)"

section \<open>Player and scheduler\<close>

text \<open>
  \<^verbatim>\<open>const clearScheduler = () => { if (schedulerTimerRef.current){
  window.clearInterval(schedulerTimerRef.current); schedulerTimerRef.current=null; }};\<close>
\<close>

definition clearScheduler :: "comp \<Rightarrow> comp" where
  "clearScheduler s =
     (case schedulerTimerRef s of
        None \<Rightarrow> s
      | Some tm \<Rightarrow> (emit IntervalCleared s)\<lparr>schedulerTimerRef := None\<rparr>)"

text \<open>
  \<^verbatim>\<open>const stop = () => { if (sourceRef.current) { try{sourceRef.current.stop();}catch{}
  sourceRef.current.disconnect(); sourceRef.current=null; } setIsPlaying(false);
  clearScheduler(); };\<close>
  The \<^verbatim>\<open>catch\<close> swallows what \<^verbatim>\<open>stop()\<close> of the node throws.
\<close>

definition stop :: "comp \<Rightarrow> js_error + comp" where
  "stop s =
     (let s1 = (case sourceRef s of
                  None \<Rightarrow> s
                | Some src \<Rightarrow>
                    (let s' = (case node_stop src of
                                 Inl e \<Rightarrow> s
                               | Inr u \<Rightarrow> emit (SourceStopped (node_buffer src)) s)
                     in (emit (SourceDisconnected (node_buffer src)) s')\<lparr>sourceRef := None\<rparr>))
      in Inr (clearScheduler (s1\<lparr>isPlaying := False\<rparr>)))"

text \<open>The quantize factor of \<^verbatim>\<open>scheduleBeats\<close>:
  \<^verbatim>\<open>quantize === "1/1" ? 1 : quantize === "1/2" ? 0.5 : 0.25\<close>\<close>

definition quantizeFactor :: "string \<Rightarrow> jsnum" where
  "quantizeFactor qz =
     (if qz = ''1/1'' then Num 1 else if qz = ''1/2'' then Num (1/2) else Num (1/4))"

text \<open>The \<^verbatim>\<open>interval\<close> of \<^verbatim>\<open>scheduleBeats\<close>:
  \<^verbatim>\<open>const beatMs = 60000 / clamp(tempo, 40, 240); ... const interval = beatMs * q;\<close>\<close>

definition intervalMs :: "jsnum \<Rightarrow> string \<Rightarrow> jsnum" where
  "intervalMs tp qz =
     (let beatMs = js_div (Num 60000) (clamp tp (Num 40) (Num 240));
          q = quantizeFactor qz
      in js_mul beatMs q)"

text \<open>
  \<^verbatim>\<open>scheduleBeats(tempo)\<close>, called when the clock \<^verbatim>\<open>performance.now()\<close> reads
  \<open>now\<close>: it computes the interval and the swing amount, sets the next beat time to
  \<^verbatim>\<open>performance.now() + offsetMs\<close>, clears the timer and makes a new one with the
  period \<^verbatim>\<open>Math.max(4, Math.min(16, interval/8))\<close>.
\<close>

definition scheduleBeats :: "rat \<Rightarrow> jsnum \<Rightarrow> comp \<Rightarrow> comp" where
  "scheduleBeats now tp s =
     (let interval = intervalMs tp (quantize s);
          swingAmt = js_div (swing s) (Num 100);
          s1 = s\<lparr>nextBeatTimeRef := js_add (Num now) (offsetMs s)\<rparr>;
          s2 = clearScheduler s1;
          period = js_max (Num 4) (js_min (Num 16) (js_div interval (Num 8)))
      in (emit (IntervalSet period) s2)
           \<lparr>schedulerTimerRef :=
              Some \<lparr>tm_interval = interval, tm_swingAmt = swingAmt, tm_period = period\<rparr>\<rparr>)"

text \<open>
  \<^verbatim>\<open>triggerBeat\<close>, called at time \<open>now\<close>: it counts the beat, raises the pulse and
  arms a timeout of 100 ms that lowers it.
\<close>

definition triggerBeat :: "rat \<Rightarrow> comp \<Rightarrow> comp" where
  "triggerBeat now s =
     s\<lparr>beatIndexRef := beatIndexRef s + 1,
       beatCount := beatCount s + 1,
       hitPulse := True,
       timeouts := timeouts s @ [now + 100],
       activeArm := (activeArm s + 1) mod 8\<rparr>"

text \<open>
  The callback of the timer, run when the clock reads \<open>now\<close>:
  \<^verbatim>\<open>if (now >= nextBeatTimeRef.current) { triggerBeat();
  const isOffBeat = (beatIndexRef.current % 2) === 1;
  const swingDelta = isOffBeat ? interval * swingAmt * 0.5 : 0;
  nextBeatTimeRef.current += interval + swingDelta; }\<close>
\<close>

definition isOffBeat :: "comp \<Rightarrow> bool" where
  "isOffBeat s = js_strict_eq (js_rem (num_of_nat (beatIndexRef s)) (Num 2)) (Num 1)"

definition swingDelta :: "sched_timer \<Rightarrow> comp \<Rightarrow> jsnum" where
  "swingDelta tm s =
     (if isOffBeat s then js_mul (js_mul (tm_interval tm) (tm_swingAmt tm)) (Num (1/2))
      else Num 0)"

definition poll :: "sched_timer \<Rightarrow> rat \<Rightarrow> comp \<Rightarrow> comp" where
  "poll tm now s =
     (if js_ge (Num now) (nextBeatTimeRef s) then
        (let s1 = triggerBeat now s
         in s1\<lparr>nextBeatTimeRef :=
                 js_add (nextBeatTimeRef s1) (js_add (tm_interval tm) (swingDelta tm s1))\<rparr>)
      else s)"

text \<open>The timer fires at \<open>now\<close>; a cleared timer runs nothing.\<close>

definition timerFires :: "rat \<Rightarrow> comp \<Rightarrow> comp" where
  "timerFires now s =
     (case schedulerTimerRef s of None \<Rightarrow> s | Some tm \<Rightarrow> poll tm now s)"

text \<open>
  \<^verbatim>\<open>play(buffer)\<close> called at \<open>now\<close>. It returns at once when there is neither an
  argument nor a decoded buffer. \<^verbatim>\<open>src.onended\<close> is \<open>onended\<close> below.
\<close>

definition play :: "rat \<Rightarrow> AudioBuffer option \<Rightarrow> comp \<Rightarrow> js_error + comp" where
  "play now buffer s =
     (case (case buffer of Some b \<Rightarrow> Some b | None \<Rightarrow> audioBufferRef s) of
        None \<Rightarrow> Inr s
      | Some buf \<Rightarrow>
          (case stop s of
             Inl e \<Rightarrow> Inl e
           | Inr s1 \<Rightarrow>
               (let s2 = (if audioCtxRef s1 then s1
                          else (emit ContextCreated s1)\<lparr>audioCtxRef := True\<rparr>);
                    src = \<lparr>node_buffer = buf, node_started = True\<rparr>;
                    s3 = (emit (SourceStarted buf) s2)\<lparr>sourceRef := Some src, isPlaying := True\<rparr>
                in Inr (scheduleBeats now (tempo s) s3))))"

text \<open>\<^verbatim>\<open>src.onended = () => { setIsPlaying(false); clearScheduler(); };\<close>\<close>

definition onended :: "comp \<Rightarrow> comp" where
  "onended s = clearScheduler (s\<lparr>isPlaying := False\<rparr>)"

text \<open>
  \<^verbatim>\<open>onAudioPick(file)\<close>: nothing without a file; otherwise the audio context is made
  if there is none, the file is decoded and the buffer stored. The argument carries
  what \<^verbatim>\<open>decodeAudioData\<close> makes of the file; when it fails the promise is rejected
  with the error, and the buffer ref keeps what it held.
\<close>

definition onAudioPick :: "(js_error + AudioBuffer) option \<Rightarrow> comp \<Rightarrow> js_error option \<times> comp" where
  "onAudioPick file s =
     (case file of
        None \<Rightarrow> (None, s)
      | Some decoded \<Rightarrow>
          (let s1 = (if audioCtxRef s then s
                     else (emit ContextCreated s)\<lparr>audioCtxRef := True\<rparr>)
           in case decoded of
                Inl e \<Rightarrow> (Some e, s1)
              | Inr buffer \<Rightarrow> (None, s1\<lparr>audioBufferRef := Some buffer\<rparr>)))"

text \<open>\<^verbatim>\<open>detectBpm\<close> only shows an alert.\<close>

definition detectBpm :: "comp \<Rightarrow> comp" where
  "detectBpm s = emit Alert s"

text \<open>
  \<^verbatim>\<open>useEffect(()=>{ if (!isPlaying) return; scheduleBeats(bpm ?? manualBpm); },
  [bpm, manualBpm, quantize, swing, offsetMs]);\<close>
  The effect runs (at \<open>now\<close>) after a render in which one of its dependencies has
  changed; a setter given the value already held causes no render.
\<close>

definition rescheduleEffect :: "rat \<Rightarrow> comp \<Rightarrow> comp" where
  "rescheduleEffect now s = (if \<not> isPlaying s then s else scheduleBeats now (tempo s) s)"

definition setManualBpm :: "rat \<Rightarrow> jsnum \<Rightarrow> comp \<Rightarrow> comp" where
  "setManualBpm now v s =
     (if v = manualBpm s then s else rescheduleEffect now (s\<lparr>manualBpm := v\<rparr>))"

definition setQuantize :: "rat \<Rightarrow> string \<Rightarrow> comp \<Rightarrow> comp" where
  "setQuantize now v s =
     (if v = quantize s then s else rescheduleEffect now (s\<lparr>quantize := v\<rparr>))"

definition setSwing :: "rat \<Rightarrow> jsnum \<Rightarrow> comp \<Rightarrow> comp" where
  "setSwing now v s =
     (if v = swing s then s else rescheduleEffect now (s\<lparr>swing := v\<rparr>))"

definition setOffsetMs :: "rat \<Rightarrow> jsnum \<Rightarrow> comp \<Rightarrow> comp" where
  "setOffsetMs now v s =
     (if v = offsetMs s then s else rescheduleEffect now (s\<lparr>offsetMs := v\<rparr>))"

section \<open>The band and its hit flags\<close>

text \<open>
  The members of \<^verbatim>\<open>band\<close> with the fields the hit flags read (the display name is
  left out).
\<close>

record member =
  member_id :: string
  instrument :: string
  subdivision :: jsnum

definition band :: "member list" where
  "band = [ \<lparr> member_id = ''octo'', instrument = ''drums'', subdivision = Num 1 \<rparr>,
            \<lparr> member_id = ''seahorse'', instrument = ''violin'', subdivision = Num 1 \<rparr>,
            \<lparr> member_id = ''seal'', instrument = ''bass'', subdivision = Num 2 \<rparr> ]"

text \<open>\<^verbatim>\<open>const hitDrums = shouldHit(beatCount, band[0].subdivision) && hitPulse;\<close>
  and the same for the violin and the bass.\<close>

definition hitDrums :: "comp \<Rightarrow> bool" where
  "hitDrums s = (shouldHit (num_of_nat (beatCount s)) (Some (subdivision (band ! 0))) \<and> hitPulse s)"

definition hitViolin :: "comp \<Rightarrow> bool" where
  "hitViolin s = (shouldHit (num_of_nat (beatCount s)) (Some (subdivision (band ! 1))) \<and> hitPulse s)"

definition hitBass :: "comp \<Rightarrow> bool" where
  "hitBass s = (shouldHit (num_of_nat (beatCount s)) (Some (subdivision (band ! 2))) \<and> hitPulse s)"

section \<open>Running the timer\<close>

text \<open>The timer fires at each clock reading of the list, in turn.\<close>

fun pollLoop :: "rat list \<Rightarrow> comp \<Rightarrow> comp" where
  "pollLoop [] s = s"
| "pollLoop (now # nows) s = pollLoop nows (timerFires now s)"

text \<open>Whether the callback run at \<open>now\<close> triggers a beat.\<close>

definition fires :: "rat \<Rightarrow> comp \<Rightarrow> bool" where
  "fires now s = (schedulerTimerRef s \<noteq> None \<and> js_ge (Num now) (nextBeatTimeRef s))"

text \<open>
  The beats of a run, in the order they are triggered: each with the index that the
  callback reads from \<^verbatim>\<open>beatIndexRef.current\<close> after \<^verbatim>\<open>triggerBeat()\<close> (which is
  also the \<^verbatim>\<open>beatCount\<close> the hit flags see) and the time it was planned for, the
  \<^verbatim>\<open>nextBeatTimeRef.current\<close> that the clock had reached.
\<close>

fun beats :: "rat list \<Rightarrow> comp \<Rightarrow> (nat \<times> jsnum) list" where
  "beats [] s = []"
| "beats (now # nows) s =
     (let s' = timerFires now s
      in (if fires now s then [(beatIndexRef s', nextBeatTimeRef s)] else []) @ beats nows s')"

text \<open>How many of the \<open>k\<close> indices after \<open>b\<close> are odd.\<close>

definition offBeats :: "nat \<Rightarrow> nat \<Rightarrow> nat" where
  "offBeats b k = length (filter odd [Suc b ..< Suc (b + k)])"

section \<open>The pulse and its timeouts\<close>

text \<open>The callback of the timeout armed by \<^verbatim>\<open>triggerBeat\<close>: \<^verbatim>\<open>()=>setHitPulse(false)\<close>.\<close>

definition pulseReset :: "comp \<Rightarrow> comp" where
  "pulseReset s = s\<lparr>hitPulse := False\<rparr>"

text \<open>A change of \<^verbatim>\<open>hitPulse\<close>, with the time at which it happens.\<close>

datatype transition = Activate rat | Deactivate rat

text \<open>
  The event loop runs the pending timeouts that are due at \<open>now\<close>, oldest first. A
  callback that finds the pulse already lowered changes nothing.
\<close>

fun fireDue :: "rat \<Rightarrow> rat list \<Rightarrow> comp \<Rightarrow> transition list \<times> comp" where
  "fireDue now [] s = ([], s\<lparr>timeouts := []\<rparr>)"
| "fireDue now (d # ds) s =
     (if d \<le> now then
        (let (tr, s') = fireDue now ds (pulseReset s)
         in ((if hitPulse s then [Deactivate d] else []) @ tr, s'))
      else ([], s\<lparr>timeouts := d # ds\<rparr>))"

definition advance :: "rat \<Rightarrow> comp \<Rightarrow> transition list \<times> comp" where
  "advance now s = fireDue now (timeouts s) s"

text \<open>A beat is triggered at \<open>t\<close>, after the timeouts due by then have run.\<close>

definition beatAt :: "rat \<Rightarrow> comp \<Rightarrow> transition list \<times> comp" where
  "beatAt t s =
     (let (tr, s1) = advance t s
      in (tr @ (if hitPulse s1 then [] else [Activate t]), triggerBeat t s1))"

fun pulseRun :: "rat list \<Rightarrow> comp \<Rightarrow> transition list \<times> comp" where
  "pulseRun [] s = ([], s)"
| "pulseRun (t # ts) s =
     (let (tr, s1) = beatAt t s; (tr', s2) = pulseRun ts s1 in (tr @ tr', s2))"

text \<open>All changes of the pulse for beats at the times \<open>ts\<close>, watched until \<open>horizon\<close>.\<close>

definition pulseTrace :: "rat list \<Rightarrow> rat \<Rightarrow> comp \<Rightarrow> transition list" where
  "pulseTrace ts horizon s =
     (let (tr, s1) = pulseRun ts s; (tr', s2) = advance horizon s1 in tr @ tr')"

section \<open>Facts about the numbers\<close>

lemma js_trunc_nat: "js_trunc (of_nat i / of_nat k) = of_nat (i div k)"
proof -
  have "(0::rat) \<le> of_nat i / of_nat k" by simp
  moreover have "\<lfloor>(of_nat i :: rat) / of_nat k\<rfloor> = int (i div k)"
    by (simp add: floor_divide_of_nat_eq)
  ultimately show ?thesis by (simp add: js_trunc_def)
qed

lemma js_rem_nat:
  assumes "0 < k"
  shows "js_rem (num_of_nat i) (num_of_nat k) = num_of_nat (i mod k)"
proof -
  have "i = k * (i div k) + i mod k" by simp
  then have "(of_nat i :: rat) = of_nat (k * (i div k) + i mod k)" by simp
  then have "(of_nat i :: rat) - of_nat k * of_nat (i div k) = of_nat (i mod k)"
    by (simp only: of_nat_add of_nat_mult)
  with assms show ?thesis
    by (simp add: num_of_nat_def js_trunc_nat)
qed

lemma clamp_Num: "clamp (Num b) (Num 40) (Num 240) = Num (max 40 (min 240 b))"
  by (simp add: clamp_def js_max_def js_min_def max_def min_def)

lemma intervalMs_Num:
  "intervalMs (Num b) qz =
     Num (60000 / max 40 (min 240 b) *
          (if qz = ''1/1'' then 1 else if qz = ''1/2'' then 1/2 else 1/4))"
  by (simp add: intervalMs_def clamp_Num quantizeFactor_def max_def min_def)



section \<open>The subdivision filter\<close>

text \<open>
  C7. For every non-negative integer beat index \<open>i\<close> and every positive integer
  subdivision \<open>k\<close>, \<^verbatim>\<open>shouldHit(i, k)\<close> is true exactly when \<open>i mod k = 0\<close>.
\<close>

theorem shouldHit_iff_mod:
  "0 < k \<Longrightarrow> shouldHit (num_of_nat i) (Some (num_of_nat k)) = (i mod k = 0)"
  by (simp add: shouldHit_def js_rem_nat js_strict_eq_def) (simp add: num_of_nat_def)

text \<open>With \<open>k = 2\<close> the indices 0, 2, 4 hit and 1, 3 do not; with \<open>k = 4\<close>, 8 hits and 6
  does not.\<close>

theorem shouldHit_iff_mod_witness:
  "(0::nat) < 2 \<and> shouldHit (num_of_nat 0) (Some (num_of_nat 2))
     \<and> \<not> shouldHit (num_of_nat 1) (Some (num_of_nat 2))
     \<and> shouldHit (num_of_nat 2) (Some (num_of_nat 2))
     \<and> \<not> shouldHit (num_of_nat 3) (Some (num_of_nat 2))
     \<and> shouldHit (num_of_nat 4) (Some (num_of_nat 2))
     \<and> shouldHit (num_of_nat 8) (Some (num_of_nat 4))
     \<and> \<not> shouldHit (num_of_nat 6) (Some (num_of_nat 4))"
  using shouldHit_iff_mod [of 2 0] shouldHit_iff_mod [of 2 1] shouldHit_iff_mod [of 2 2]
    shouldHit_iff_mod [of 2 3] shouldHit_iff_mod [of 2 4] shouldHit_iff_mod [of 4 8]
    shouldHit_iff_mod [of 4 6]
  by simp

text \<open>
  C10. \<^verbatim>\<open>shouldHit\<close> has no check of its subdivision: with the subdivision 0 the
  remainder is NaN for every beat index, NaN is not \<^verbatim>\<open>=== 0\<close>, and the result is
  false; a negative subdivision is computed with like any other (4 hits with -2, 3 does
  not).
\<close>

theorem shouldHit_zero_subdivision:
  "js_rem b (Num 0) = NaN \<and> \<not> js_strict_eq NaN (Num 0) \<and> \<not> shouldHit b (Some (Num 0))
   \<and> shouldHit (Num 4) (Some (Num (- 2))) \<and> \<not> shouldHit (Num 3) (Some (Num (- 2)))"
proof -
  have zero: "js_rem b (Num 0) = NaN"
    by (cases b) simp_all
  have neg: "shouldHit (Num 4) (Some (Num (- 2)))" "\<not> shouldHit (Num 3) (Some (Num (- 2)))"
    by code_simp+
  show ?thesis
    using neg by (simp add: zero shouldHit_def js_strict_eq_def)
qed

section \<open>The interval\<close>




section \<open>Stopping and starting\<close>

text \<open>
  C8. From any state \<^verbatim>\<open>stop()\<close> returns without an error, and the state it leaves is
  one that a second \<^verbatim>\<open>stop()\<close> returns unchanged, its log of effects included. When
  nothing runs (no source, no timer, not playing) the first call already changes
  nothing. The \<^verbatim>\<open>ended\<close> handler of a stopped source changes nothing either.
\<close>

theorem stop_idempotent:
  "(\<exists>s1. stop s = Inr s1 \<and> stop s1 = Inr s1 \<and> onended s1 = s1)
   \<and> (sourceRef s = None \<and> schedulerTimerRef s = None \<and> \<not> isPlaying s \<longrightarrow> stop s = Inr s)"
  by (simp add: stop_def onended_def clearScheduler_def emit_def Let_def
        split: option.splits sum.splits)

text \<open>The freshly mounted component is idle, and \<^verbatim>\<open>stop()\<close> leaves it as it is.\<close>

theorem stop_idempotent_witness:
  "sourceRef init = None \<and> schedulerTimerRef init = None \<and> \<not> isPlaying init
   \<and> stop init = Inr init"
  using stop_idempotent [of init] by (simp add: init_def)

text \<open>
  C9, as the code has it. Without an argument and without a decoded buffer,
  \<^verbatim>\<open>play()\<close> returns normally and leaves the whole state as it was: nothing is
  started, no timer is made, no effect is logged, and no error is raised or shown.
\<close>

theorem play_without_media:
  "audioBufferRef s = None \<Longrightarrow> play now None s = Inr s"
  by (simp add: play_def)

theorem play_without_media_witness:
  "audioBufferRef init = None \<and> play 0 None init = Inr init"
  using play_without_media [of init 0] by (simp add: init_def)

text \<open>On the freshly mounted component \<^verbatim>\<open>play()\<close> is not a failure: it returns the
  initial state, whose log of effects is empty.\<close>

theorem play_without_media_counterexample:
  "play 0 None init = Inr init \<and> \<not> isl (play 0 None init) \<and> effects init = []
   \<and> \<not> isPlaying init \<and> schedulerTimerRef init = None"
  by (simp add: play_def init_def)

section \<open>Facts about the scheduler\<close>

lemma isOffBeat_odd: "isOffBeat s = odd (beatIndexRef s)"
proof -
  have "js_rem (num_of_nat (beatIndexRef s)) (num_of_nat 2) = num_of_nat (beatIndexRef s mod 2)"
    by (rule js_rem_nat) simp
  then have "js_rem (num_of_nat (beatIndexRef s)) (Num 2) = Num (of_nat (beatIndexRef s mod 2))"
    by (simp add: num_of_nat_def)
  then show ?thesis
    by (simp add: isOffBeat_def js_strict_eq_def odd_iff_mod_2_eq_one)
qed

lemma intervalMs_pos: "intervalMs tp qz = Num iv \<Longrightarrow> 0 < iv"
  by (cases tp)
     (auto simp: intervalMs_def clamp_def js_max_def js_min_def quantizeFactor_def
           split: if_splits)

lemma timerFires_fire:
  assumes "schedulerTimerRef s = Some tm" "tm_interval tm = Num iv" "tm_swingAmt tm = Num sw"
    and "nextBeatTimeRef s = Num nx" "nx \<le> now"
  shows "timerFires now s =
           (triggerBeat now s)\<lparr>nextBeatTimeRef :=
              Num (nx + (iv + (if odd (Suc (beatIndexRef s)) then iv * sw * (1/2) else 0)))\<rparr>"
  using assms
  by (simp add: timerFires_def poll_def js_ge_def Let_def swingDelta_def isOffBeat_odd
        triggerBeat_def)

lemma timerFires_idle:
  assumes "schedulerTimerRef s = Some tm" "nextBeatTimeRef s = Num nx" "\<not> nx \<le> now"
  shows "timerFires now s = s"
  using assms by (simp add: timerFires_def poll_def js_ge_def)

lemma fires_Num:
  "schedulerTimerRef s = Some tm \<Longrightarrow> nextBeatTimeRef s = Num nx \<Longrightarrow> fires now s = (nx \<le> now)"
  by (simp add: fires_def js_ge_def)

lemma timerFires_index:
  "beatIndexRef (timerFires now s) = (if fires now s then Suc (beatIndexRef s) else beatIndexRef s)"
  by (simp add: timerFires_def fires_def poll_def Let_def triggerBeat_def split: option.splits)

lemma scheduleBeats_timer:
  "schedulerTimerRef (scheduleBeats t0 tp s0) =
     Some \<lparr>tm_interval = intervalMs tp (quantize s0),
           tm_swingAmt = js_div (swing s0) (Num 100),
           tm_period = js_max (Num 4) (js_min (Num 16) (js_div (intervalMs tp (quantize s0)) (Num 8)))\<rparr>"
  by (simp add: scheduleBeats_def Let_def emit_def)

lemma scheduleBeats_next:
  "nextBeatTimeRef (scheduleBeats t0 tp s0) = js_add (Num t0) (offsetMs s0)"
  by (simp add: scheduleBeats_def Let_def emit_def clearScheduler_def split: option.splits)

lemma scheduleBeats_index:
  "beatIndexRef (scheduleBeats t0 tp s0) = beatIndexRef s0"
  by (simp add: scheduleBeats_def Let_def emit_def clearScheduler_def split: option.splits)

lemma scheduleBeats_frame:
  "sourceRef (scheduleBeats t0 tp s) = sourceRef s"
  "isPlaying (scheduleBeats t0 tp s) = isPlaying s"
  "\<exists>p. effects (scheduleBeats t0 tp s) =
         effects s @ (case schedulerTimerRef s of None \<Rightarrow> [] | Some tm \<Rightarrow> [IntervalCleared])
                   @ [IntervalSet p]"
  by (simp_all add: scheduleBeats_def Let_def emit_def clearScheduler_def split: option.splits)

lemma offBeats_0: "offBeats b 0 = 0"
  by (simp add: offBeats_def)

lemma offBeats_Suc: "offBeats b (Suc k) = (if odd (Suc b) then 1 else 0) + offBeats (Suc b) k"
proof -
  have "[Suc b ..< Suc (b + Suc k)] = Suc b # [Suc (Suc b) ..< Suc (Suc b + k)]"
    by (simp add: upt_rec)
  then show ?thesis by (simp add: offBeats_def)
qed

lemma beats_indices:
  "map fst (beats nows s) = [Suc (beatIndexRef s) ..< Suc (beatIndexRef s) + length (beats nows s)]"
proof (induction nows arbitrary: s)
  case Nil
  show ?case by simp
next
  case (Cons now nows)
  show ?case
  proof (cases "fires now s")
    case True
    then have idx: "beatIndexRef (timerFires now s) = Suc (beatIndexRef s)"
      by (simp add: timerFires_index)
    have "[Suc (beatIndexRef s) ..< Suc (beatIndexRef s) + Suc (length (beats nows (timerFires now s)))]
          = Suc (beatIndexRef s) # [Suc (Suc (beatIndexRef s)) ..< Suc (Suc (beatIndexRef s)) + length (beats nows (timerFires now s))]"
      by (simp add: upt_rec)
    with True idx Cons.IH [of "timerFires now s"] show ?thesis
      by (simp add: Let_def)
  next
    case False
    then have "beatIndexRef (timerFires now s) = beatIndexRef s"
      by (simp add: timerFires_index)
    with False Cons.IH [of "timerFires now s"] show ?thesis
      by (simp add: Let_def)
  qed
qed

lemma beats_planned:
  assumes "schedulerTimerRef s = Some tm" "tm_interval tm = Num iv" "tm_swingAmt tm = Num sw"
    and "nextBeatTimeRef s = Num a" and "k < length (beats nows s)"
  shows "snd (beats nows s ! k) =
           Num (a + of_nat k * iv + of_nat (offBeats (beatIndexRef s) k) * (iv * sw * (1/2)))"
  using assms
proof (induction nows arbitrary: s a k)
  case Nil
  then show ?case by simp
next
  case (Cons now nows)
  show ?case
  proof (cases "a \<le> now")
    case True
    let ?s' = "timerFires now s"
    let ?a' = "a + (iv + (if odd (Suc (beatIndexRef s)) then iv * sw * (1/2) else 0))"
    have fire: "?s' = (triggerBeat now s)\<lparr>nextBeatTimeRef := Num ?a'\<rparr>"
      by (rule timerFires_fire [OF Cons.prems(1,2,3,4) True])
    have f: "fires now s"
      using Cons.prems(1,4) True by (simp add: fires_Num)
    have tm': "schedulerTimerRef ?s' = Some tm"
      using Cons.prems(1) by (simp add: fire triggerBeat_def)
    have nx': "nextBeatTimeRef ?s' = Num ?a'" by (simp add: fire)
    have idx': "beatIndexRef ?s' = Suc (beatIndexRef s)" by (simp add: fire triggerBeat_def)
    have bs: "beats (now # nows) s = (beatIndexRef ?s', Num a) # beats nows ?s'"
      using f Cons.prems(4) by (simp add: Let_def)
    show ?thesis
    proof (cases k)
      case 0
      then show ?thesis by (simp add: bs offBeats_0 del: beats.simps)
    next
      case (Suc j)
      with Cons.prems(5) have j: "j < length (beats nows ?s')" by (simp add: bs del: beats.simps)
      have "snd (beats nows ?s' ! j) =
              Num (?a' + of_nat j * iv + of_nat (offBeats (beatIndexRef ?s') j) * (iv * sw * (1/2)))"
        by (rule Cons.IH [OF tm' Cons.prems(2,3) nx' j])
      then show ?thesis
        by (simp add: bs Suc idx' offBeats_Suc algebra_simps del: beats.simps)
    qed
  next
    case False
    have same: "timerFires now s = s"
      by (rule timerFires_idle [OF Cons.prems(1,4) False])
    have nf: "\<not> fires now s"
      using Cons.prems(1,4) False by (simp add: fires_Num)
    have bs: "beats (now # nows) s = beats nows s"
      using nf same by (simp add: Let_def)
    with Cons.prems(5) have k: "k < length (beats nows s)" by (simp del: beats.simps)
    show ?thesis
      using Cons.IH [OF Cons.prems(1,2,3,4) k] by (simp add: bs del: beats.simps)
  qed
qed

lemma pollLoop_next:
  assumes "schedulerTimerRef s = Some tm" "tm_interval tm = Num iv" "tm_swingAmt tm = Num sw"
    and "nextBeatTimeRef s = Num a"
  shows "nextBeatTimeRef (pollLoop nows s) =
           Num (a + of_nat (length (beats nows s)) * iv
                  + of_nat (offBeats (beatIndexRef s) (length (beats nows s))) * (iv * sw * (1/2)))"
  using assms
proof (induction nows arbitrary: s a)
  case Nil
  then show ?case by (simp add: offBeats_0)
next
  case (Cons now nows)
  show ?case
  proof (cases "a \<le> now")
    case True
    let ?s' = "timerFires now s"
    let ?a' = "a + (iv + (if odd (Suc (beatIndexRef s)) then iv * sw * (1/2) else 0))"
    have fire: "?s' = (triggerBeat now s)\<lparr>nextBeatTimeRef := Num ?a'\<rparr>"
      by (rule timerFires_fire [OF Cons.prems(1,2,3,4) True])
    have f: "fires now s"
      using Cons.prems(1,4) True by (simp add: fires_Num)
    have tm': "schedulerTimerRef ?s' = Some tm"
      using Cons.prems(1) by (simp add: fire triggerBeat_def)
    have nx': "nextBeatTimeRef ?s' = Num ?a'" by (simp add: fire)
    have idx': "beatIndexRef ?s' = Suc (beatIndexRef s)" by (simp add: fire triggerBeat_def)
    have bs: "beats (now # nows) s = (beatIndexRef ?s', Num a) # beats nows ?s'"
      using f Cons.prems(4) by (simp add: Let_def)
    show ?thesis
      using Cons.IH [OF tm' Cons.prems(2,3) nx']
      by (simp add: bs idx' offBeats_Suc algebra_simps del: beats.simps)
  next
    case False
    have same: "timerFires now s = s"
      by (rule timerFires_idle [OF Cons.prems(1,4) False])
    have nf: "\<not> fires now s"
      using Cons.prems(1,4) False by (simp add: fires_Num)
    have bs: "beats (now # nows) s = beats nows s"
      using nf same by (simp add: Let_def)
    show ?thesis
      using Cons.IH [OF Cons.prems(1,2,3,4)] by (simp add: bs same del: beats.simps)
  qed
qed

section \<open>The beat grid\<close>

text \<open>
  C1. After \<^verbatim>\<open>scheduleBeats\<close> at clock reading \<open>t0\<close>, with a finite interval \<open>iv\<close>,
  swing \<open>w\<close> and offset \<open>off\<close>, let the timer fire at any clock readings \<open>nows\<close>,
  however late. The beat number \<open>k\<close> of the run (counted from 0) was planned for
  \<open>t0 + off + k * iv\<close> plus one swing delay \<open>iv * (w/100) * 0.5\<close> for each odd index
  among the \<open>k\<close> beats before it; and the next beat time left after the run is the same
  expression at the number of beats fired. No clock reading of \<open>nows\<close> occurs in either.
\<close>

theorem drift_invariant:
  assumes "intervalMs tp (quantize s0) = Num iv" and "swing s0 = Num w"
    and "offsetMs s0 = Num off" and "s = scheduleBeats t0 tp s0"
    and "k < length (beats nows s)"
  shows "snd (beats nows s ! k) =
           Num ((t0 + off) + of_nat k * iv
                + of_nat (offBeats (beatIndexRef s0) k) * (iv * (w / 100) * (1/2)))
     \<and> nextBeatTimeRef (pollLoop nows s) =
           Num ((t0 + off) + of_nat (length (beats nows s)) * iv
                + of_nat (offBeats (beatIndexRef s0) (length (beats nows s)))
                    * (iv * (w / 100) * (1/2)))"
proof -
  let ?tm = "\<lparr>tm_interval = Num iv, tm_swingAmt = Num (w / 100),
              tm_period = js_max (Num 4) (js_min (Num 16) (js_div (Num iv) (Num 8)))\<rparr>"
  have tm: "schedulerTimerRef s = Some ?tm"
    using assms(1,2,4) by (simp add: scheduleBeats_timer)
  have nx: "nextBeatTimeRef s = Num (t0 + off)"
    using assms(3,4) by (simp add: scheduleBeats_next)
  have idx: "beatIndexRef s = beatIndexRef s0"
    using assms(4) by (simp add: scheduleBeats_index)
  have iv: "tm_interval ?tm = Num iv" and sw: "tm_swingAmt ?tm = Num (w / 100)"
    by simp_all
  show ?thesis
    using beats_planned [OF tm iv sw nx assms(5)] pollLoop_next [OF tm iv sw nx, of nows]
    by (simp only: idx)
qed

text \<open>At 120 bpm with 20 percent swing, polls at 0, 16, 510, 700 and 1100 ms fire three
  beats; the third was planned for 1050 ms and the next one is planned for 1600 ms.\<close>

theorem drift_invariant_witness:
  "intervalMs (Num 120) (quantize (init\<lparr>swing := Num 20\<rparr>)) = Num 500
   \<and> swing (init\<lparr>swing := Num 20\<rparr>) = Num 20
   \<and> offsetMs (init\<lparr>swing := Num 20\<rparr>) = Num 0
   \<and> 2 < length (beats [0, 16, 510, 700, 1100] (scheduleBeats 0 (Num 120) (init\<lparr>swing := Num 20\<rparr>)))
   \<and> snd (beats [0, 16, 510, 700, 1100] (scheduleBeats 0 (Num 120) (init\<lparr>swing := Num 20\<rparr>)) ! 2)
       = Num 1050
   \<and> nextBeatTimeRef (pollLoop [0, 16, 510, 700, 1100] (scheduleBeats 0 (Num 120) (init\<lparr>swing := Num 20\<rparr>)))
       = Num 1600"
proof -
  let ?c = "init\<lparr>swing := Num 20\<rparr>"
  let ?s = "scheduleBeats 0 (Num 120) ?c"
  have h1: "intervalMs (Num 120) (quantize ?c) = Num 500" by code_simp
  have h2: "swing ?c = Num 20" by simp
  have h3: "offsetMs ?c = Num 0" by (simp add: init_def)
  have len: "length (beats [0, 16, 510, 700, 1100] ?s) = 3" by code_simp
  then have h5: "2 < length (beats [0, 16, 510, 700, 1100] ?s)" by simp
  have ob: "offBeats (beatIndexRef ?c) 2 = 1" "offBeats (beatIndexRef ?c) 3 = 2" by code_simp+
  have main: "snd (beats [0, 16, 510, 700, 1100] ?s ! 2) = Num 1050
      \<and> nextBeatTimeRef (pollLoop [0, 16, 510, 700, 1100] ?s) = Num 1600"
    using drift_invariant [OF h1 h2 h3 refl h5] unfolding len ob by simp
  show ?thesis
    using main h1 h2 h3 h5 by (simp del: beats.simps pollLoop.simps)
qed

text \<open>
  C4, as the code has it. The indices of the beats of a run are consecutive: they go up
  by exactly 1 per beat, from one more than the counter held when the run began. The
  counter is 0 when the component is mounted, each \<^verbatim>\<open>triggerBeat\<close> adds 1 to it (and to
  \<^verbatim>\<open>beatCount\<close>) before it is read, and \<^verbatim>\<open>scheduleBeats\<close>, \<^verbatim>\<open>stop\<close> and
  \<^verbatim>\<open>play\<close> leave it alone.
\<close>

theorem beat_indices_consecutive:
  "map fst (beats nows s) =
      [Suc (beatIndexRef s) ..< Suc (beatIndexRef s) + length (beats nows s)]
   \<and> beatIndexRef init = 0
   \<and> beatIndexRef (triggerBeat now s) = beatIndexRef s + 1
   \<and> beatCount (triggerBeat now s) = beatCount s + 1
   \<and> beatIndexRef (scheduleBeats now tp s) = beatIndexRef s
   \<and> map_sum id beatIndexRef (stop s) = Inr (beatIndexRef s)
   \<and> map_sum id beatIndexRef (play now buffer s) = Inr (beatIndexRef s)"
proof -
  have st: "map_sum id beatIndexRef (stop s) = Inr (beatIndexRef s)" for s
    by (simp add: stop_def Let_def clearScheduler_def emit_def split: option.splits sum.splits)
  have pl: "map_sum id beatIndexRef (play now buffer s) = Inr (beatIndexRef s)"
  proof (cases "case buffer of Some b \<Rightarrow> Some b | None \<Rightarrow> audioBufferRef s")
    case None
    then show ?thesis by (simp add: play_def)
  next
    case (Some buf)
    obtain s1 where s1: "stop s = Inr s1" "beatIndexRef s1 = beatIndexRef s"
      using st [of s] by (cases "stop s") auto
    show ?thesis
      using Some s1 by (simp add: play_def Let_def scheduleBeats_index emit_def)
  qed
  show ?thesis
    using beats_indices [of nows s] st [of s] pl
    by (simp add: init_def triggerBeat_def scheduleBeats_index)
qed

text \<open>The first beat after the first start carries the index 1, not 0: the drums
  (every beat) hit on it and the bass (every second beat) does not. After three beats,
  a stop and a new start, the counter still holds 3 and the first beat carries 4.\<close>

theorem beat_indices_counterexample:
  "map fst (beats [0] (projr (play 0 (Some 7) init))) = [1]
   \<and> beatCount (pollLoop [0] (projr (play 0 (Some 7) init))) = 1
   \<and> hitDrums (pollLoop [0] (projr (play 0 (Some 7) init)))
   \<and> \<not> hitBass (pollLoop [0] (projr (play 0 (Some 7) init)))
   \<and> beatIndexRef (projr (play 2000 (Some 7)
         (projr (stop (pollLoop [0, 500, 1000] (projr (play 0 (Some 7) init))))))) = 3
   \<and> map fst (beats [2000] (projr (play 2000 (Some 7)
         (projr (stop (pollLoop [0, 500, 1000] (projr (play 0 (Some 7) init)))))))) = [4]"
  by code_simp

section \<open>Swing\<close>

text \<open>
  C5. Let the timer be the one made by \<^verbatim>\<open>scheduleBeats\<close> from a finite interval
  \<open>iv\<close> and swing \<open>w\<close>, and let it fire a beat (the clock has reached the next beat
  time \<open>nx\<close>). Then the index goes up by one and the next beat time becomes
  \<open>nx + iv\<close>, plus \<open>iv * (w/100) * 0.5\<close> exactly when the index just read is odd. With
  \<open>w \<ge> 0\<close> the next beat is never earlier than \<open>nx + iv\<close>.
\<close>

theorem swing_application:
  assumes "schedulerTimerRef s = schedulerTimerRef (scheduleBeats t0 tp s0)"
    and "intervalMs tp (quantize s0) = Num iv" and "swing s0 = Num w"
    and "nextBeatTimeRef s = Num nx" and "nx \<le> now"
  shows "beatIndexRef (timerFires now s) = beatIndexRef s + 1
     \<and> nextBeatTimeRef (timerFires now s) =
         Num (nx + (iv + (if odd (beatIndexRef (timerFires now s)) then iv * (w / 100) * (1/2) else 0)))
     \<and> (0 \<le> w \<longrightarrow> js_le (Num (nx + iv)) (nextBeatTimeRef (timerFires now s)))"
proof -
  let ?tm = "\<lparr>tm_interval = Num iv, tm_swingAmt = Num (w / 100),
              tm_period = js_max (Num 4) (js_min (Num 16) (js_div (Num iv) (Num 8)))\<rparr>"
  have tm: "schedulerTimerRef s = Some ?tm"
    using assms(1,2,3) by (simp add: scheduleBeats_timer)
  have fire: "timerFires now s =
           (triggerBeat now s)\<lparr>nextBeatTimeRef :=
              Num (nx + (iv + (if odd (Suc (beatIndexRef s)) then iv * (w / 100) * (1/2) else 0)))\<rparr>"
    by (rule timerFires_fire [OF tm _ _ assms(4,5)]) simp_all
  have "0 < iv" using assms(2) by (rule intervalMs_pos)
  then have "0 \<le> w \<Longrightarrow> 0 \<le> iv * (w / 100) * (1/2)" by simp
  then show ?thesis
    by (simp add: fire triggerBeat_def)
qed

text \<open>At 120 bpm with 20 percent swing the beat with index 1 moves the next beat time
  from 0 to 550, and the beat with index 2 moves it from 550 to 1050.\<close>

theorem swing_application_witness:
  "schedulerTimerRef (scheduleBeats 0 (Num 120) (init\<lparr>swing := Num 20\<rparr>))
     = schedulerTimerRef (scheduleBeats 0 (Num 120) (init\<lparr>swing := Num 20\<rparr>))
   \<and> intervalMs (Num 120) (quantize (init\<lparr>swing := Num 20\<rparr>)) = Num 500
   \<and> swing (init\<lparr>swing := Num 20\<rparr>) = Num 20
   \<and> nextBeatTimeRef (scheduleBeats 0 (Num 120) (init\<lparr>swing := Num 20\<rparr>)) = Num 0
   \<and> (0::rat) \<le> 3
   \<and> beatIndexRef (timerFires 3 (scheduleBeats 0 (Num 120) (init\<lparr>swing := Num 20\<rparr>))) = 1
   \<and> nextBeatTimeRef (timerFires 3 (scheduleBeats 0 (Num 120) (init\<lparr>swing := Num 20\<rparr>)))
        = Num 550
   \<and> nextBeatTimeRef (timerFires 560 (timerFires 3 (scheduleBeats 0 (Num 120) (init\<lparr>swing := Num 20\<rparr>))))
        = Num 1050"
proof -
  let ?c = "init\<lparr>swing := Num 20\<rparr>"
  let ?d = "scheduleBeats 0 (Num 120) ?c"
  let ?e = "timerFires 3 ?d"
  have h2: "intervalMs (Num 120) (quantize ?c) = Num 500" by code_simp
  have h3: "swing ?c = Num 20" by simp
  have h4: "nextBeatTimeRef ?d = Num 0" by code_simp
  have h5: "(0::rat) \<le> 3" by simp
  have i0: "beatIndexRef ?d = 0" by code_simp
  have one: "beatIndexRef ?e = 1 \<and> nextBeatTimeRef ?e = Num 550"
    using swing_application [OF refl h2 h3 h4 h5] by (simp add: i0)
  have t: "schedulerTimerRef ?e = schedulerTimerRef ?d" by code_simp
  have h4': "nextBeatTimeRef ?e = Num 550" using one by simp
  have h5': "(550::rat) \<le> 560" by simp
  have two: "nextBeatTimeRef (timerFires 560 ?e) = Num 1050"
    using swing_application [OF t h2 h3 h4' h5'] one by simp
  show ?thesis
    using one two h2 h3 h4 h5 by simp
qed

section \<open>A change of the settings while playing\<close>

text \<open>
  C6, as the code has it. While playing, the effect that follows a change of tempo,
  quantize, swing or offset calls \<^verbatim>\<open>scheduleBeats\<close>: the timer is cleared and made
  anew with the interval and swing amount recomputed, and the next beat time is set to
  the clock reading of that moment plus the offset. The audio source, the playing flag
  and the beat counter stay as they are, and the only effects are on the timer.
\<close>

theorem reschedule_reanchors:
  assumes "isPlaying s"
  shows "nextBeatTimeRef (rescheduleEffect now s) = js_add (Num now) (offsetMs s)
     \<and> map_option tm_interval (schedulerTimerRef (rescheduleEffect now s))
         = Some (intervalMs (tempo s) (quantize s))
     \<and> map_option tm_swingAmt (schedulerTimerRef (rescheduleEffect now s))
         = Some (js_div (swing s) (Num 100))
     \<and> sourceRef (rescheduleEffect now s) = sourceRef s
     \<and> isPlaying (rescheduleEffect now s)
     \<and> beatIndexRef (rescheduleEffect now s) = beatIndexRef s
     \<and> (\<exists>p. effects (rescheduleEffect now s) =
            effects s @ (case schedulerTimerRef s of None \<Rightarrow> [] | Some tm \<Rightarrow> [IntervalCleared])
                      @ [IntervalSet p])
     \<and> (v \<noteq> manualBpm s \<longrightarrow> setManualBpm now v s = rescheduleEffect now (s\<lparr>manualBpm := v\<rparr>))
     \<and> (qz \<noteq> quantize s \<longrightarrow> setQuantize now qz s = rescheduleEffect now (s\<lparr>quantize := qz\<rparr>))
     \<and> (w \<noteq> swing s \<longrightarrow> setSwing now w s = rescheduleEffect now (s\<lparr>swing := w\<rparr>))
     \<and> (off \<noteq> offsetMs s \<longrightarrow> setOffsetMs now off s = rescheduleEffect now (s\<lparr>offsetMs := off\<rparr>))"
  using assms scheduleBeats_frame(3) [of now "tempo s" s]
  by (simp add: rescheduleEffect_def scheduleBeats_next scheduleBeats_timer scheduleBeats_index
        scheduleBeats_frame(1,2) setManualBpm_def setQuantize_def setSwing_def setOffsetMs_def)

theorem reschedule_reanchors_witness:
  "isPlaying (timerFires 0 (projr (play 0 (Some 7) init)))
   \<and> nextBeatTimeRef (timerFires 0 (projr (play 0 (Some 7) init))) = Num 500
   \<and> Num 100 \<noteq> manualBpm (timerFires 0 (projr (play 0 (Some 7) init)))
   \<and> nextBeatTimeRef (setManualBpm 123 (Num 100) (timerFires 0 (projr (play 0 (Some 7) init))))
        = Num 123
   \<and> sourceRef (setManualBpm 123 (Num 100) (timerFires 0 (projr (play 0 (Some 7) init))))
        = Some \<lparr>node_buffer = 7, node_started = True\<rparr>"
proof -
  let ?p = "timerFires 0 (projr (play 0 (Some 7) init))"
  have p: "isPlaying ?p" by code_simp
  have m: "Num 100 \<noteq> manualBpm ?p" by code_simp
  have o: "offsetMs (?p\<lparr>manualBpm := Num 100\<rparr>) = Num 0" by code_simp
  have n: "nextBeatTimeRef ?p = Num 500" by code_simp
  have sr: "sourceRef ?p = Some \<lparr>node_buffer = 7, node_started = True\<rparr>" by code_simp
  have p': "isPlaying (?p\<lparr>manualBpm := Num 100\<rparr>)" using p by simp
  have a: "setManualBpm 123 (Num 100) ?p = rescheduleEffect 123 (?p\<lparr>manualBpm := Num 100\<rparr>)"
    using reschedule_reanchors [OF p, of 123 "Num 100"] m by blast
  have b: "nextBeatTimeRef (rescheduleEffect 123 (?p\<lparr>manualBpm := Num 100\<rparr>)) = Num 123"
      "sourceRef (rescheduleEffect 123 (?p\<lparr>manualBpm := Num 100\<rparr>)) = sourceRef ?p"
    using reschedule_reanchors [OF p', of 123] o by simp_all
  show ?thesis
    unfolding a b using p m n sr by simp
qed

text \<open>Playback starts at 0 with beats every 500 ms; the first beat fires and the next is
  planned for 500. A change of the tempo to 100 at clock reading 123 plans the next beat
  for 123 and the one after for 723.\<close>

theorem reschedule_counterexample:
  "nextBeatTimeRef (projr (play 0 (Some 7) init)) = Num 0
   \<and> map_option tm_interval (schedulerTimerRef (projr (play 0 (Some 7) init))) = Some (Num 500)
   \<and> nextBeatTimeRef (timerFires 0 (projr (play 0 (Some 7) init))) = Num 500
   \<and> nextBeatTimeRef (setManualBpm 123 (Num 100) (timerFires 0 (projr (play 0 (Some 7) init))))
        = Num 123
   \<and> beats [123, 200, 500, 600, 723]
        (setManualBpm 123 (Num 100) (timerFires 0 (projr (play 0 (Some 7) init))))
        = [(2, Num 123), (3, Num 723)]"
  by code_simp

section \<open>The pulse\<close>

lemma pulseRun_pair:
  assumes "\<not> hitPulse s" "timeouts s = []" "t1 \<le> t2" "t2 < t1 + 100" "t2 + 100 \<le> h"
  shows "pulseRun [t1, t2] s =
           ([Activate t1],
            triggerBeat t2 (triggerBeat t1 (s\<lparr>timeouts := []\<rparr>)\<lparr>timeouts := [t1 + 100]\<rparr>))"
  using assms
  by (simp add: beatAt_def advance_def triggerBeat_def)

text \<open>
  C2, as the code has it. From a lowered pulse with no timeout pending, two beats less
  than 100 ms apart raise the pulse once, at the first beat, and lower it once, 100 ms
  after the first beat. Each beat arms a timeout of its own, so two are pending after
  the second beat; the pulse is up then and down again once the first has run.
\<close>

theorem pulse_pair:
  assumes "\<not> hitPulse s" "timeouts s = []" "t1 \<le> t2" "t2 < t1 + 100" "t2 + 100 \<le> h"
  shows "pulseTrace [t1, t2] h s = [Activate t1, Deactivate (t1 + 100)]
     \<and> timeouts (snd (pulseRun [t1, t2] s)) = [t1 + 100, t2 + 100]
     \<and> hitPulse (snd (pulseRun [t1, t2] s))
     \<and> \<not> hitPulse (snd (advance (t1 + 100) (snd (pulseRun [t1, t2] s))))"
proof -
  have run: "pulseRun [t1, t2] s =
           ([Activate t1],
            triggerBeat t2 (triggerBeat t1 (s\<lparr>timeouts := []\<rparr>)\<lparr>timeouts := [t1 + 100]\<rparr>))"
    by (rule pulseRun_pair [OF assms])
  from assms(3,4,5) have "t1 + 100 \<le> h" by simp
  with assms show ?thesis
    unfolding pulseTrace_def run
    by (simp add: advance_def triggerBeat_def pulseReset_def)
qed

theorem pulse_pair_witness:
  "\<not> hitPulse init \<and> timeouts init = [] \<and> (0::rat) \<le> 125 / 2 \<and> (125 / 2 :: rat) < 0 + 100
   \<and> (125 / 2 + 100 :: rat) \<le> 1000
   \<and> pulseTrace [0, 125 / 2] 1000 init = [Activate 0, Deactivate 100]
   \<and> timeouts (snd (pulseRun [0, 125 / 2] init)) = [100, 325 / 2]"
proof -
  have a: "\<not> hitPulse init" "timeouts init = []" by (simp_all add: init_def)
  have b: "(0::rat) \<le> 125 / 2" "(125 / 2 :: rat) < 0 + 100" "(125 / 2 + 100 :: rat) \<le> 1000"
    by simp_all
  show ?thesis
    using pulse_pair [OF a b] a b by (simp del: pulseRun.simps)
qed

text \<open>Beats at 0 and 62.5 ms: the pulse goes down at 100 ms, not at 162.5 ms, and two
  timeouts are pending. A third beat at 125 ms gets a pulse that the timeout of the
  second beat ends at 162.5 ms.\<close>

theorem pulse_pair_counterexample:
  "pulseTrace [0, 125 / 2] 1000 init = [Activate 0, Deactivate 100]
   \<and> Deactivate (125 / 2 + 100) \<notin> set (pulseTrace [0, 125 / 2] 1000 init)
   \<and> timeouts (snd (pulseRun [0, 125 / 2] init)) = [100, 325 / 2]
   \<and> pulseTrace [0, 125 / 2, 125] 1000 init
       = [Activate 0, Deactivate 100, Activate 125, Deactivate (325 / 2)]"
  by code_simp

end
